theory Spec2Isabelle
  imports Main "HOL-Library.Word"
begin

unbundle bit_operations_syntax

section \<open>Data model of package symbol\_inject\<close>

text \<open>
  The Go structs \<^verbatim>\<open>Section\<close>, \<^verbatim>\<open>Symbol\<close> and \<^verbatim>\<open>File\<close>. Field names carry the struct
  name as a prefix, because \<^verbatim>\<open>Name\<close>, \<^verbatim>\<open>Addr\<close> and \<^verbatim>\<open>Size\<close> occur in two structs.
  All \<^verbatim>\<open>uint64\<close> fields are 64-bit words: \<open>+\<close> and \<open>-\<close> wrap, \<open>\<le>\<close> and \<open><\<close> are unsigned.

  A \<^verbatim>\<open>*Section\<close> is modelled as an index into \<open>File_Sections\<close>: two pointers are equal
  iff the indices are, whatever the contents of the sections. An index outside the
  list stands for a nil pointer; dereferencing it is Go's run-time panic. The entries
  of \<^verbatim>\<open>Symbols\<close> and \<^verbatim>\<open>Sections\<close> are the structs themselves: the pointers to them
  are taken to be non-nil.
  The byte source \<^verbatim>\<open>r io.ReaderAt\<close> is the sequence of the bytes it holds.
\<close>

type_synonym u64 = "64 word"
type_synonym byte = "8 word"
type_synonym section_ptr = nat

record Section =
  Section_Name :: string
  Section_Addr :: u64
  Section_Offset :: u64
  Section_Size :: u64

record Symbol =
  Symbol_Name :: string
  Symbol_Addr :: u64
  Symbol_Size :: u64
  Symbol_Section :: section_ptr

record File =
  File_r :: "byte list"
  File_Symbols :: "Symbol list"
  File_Sections :: "Section list"

text \<open>
  Errors of the input/output layer (package \<^verbatim>\<open>io\<close> and the byte source), and the
  errors of the package itself, one constructor for each \<^verbatim>\<open>fmt.Errorf\<close> of the source
  with the values it formats.
\<close>

datatype io_error =
    EOF
  | ErrUnexpectedEOF
  | ErrShortWrite
  | ErrNegativeOffset
  | PanicSliceBounds

datatype error =
    cantParseError string
  | otherError string
  | SymbolNotFound
  | InvalidEndAddress u64 u64
  | ValueOverflows nat u64
  | ContentsMismatch "byte list" "byte list"
  | NotUint64 string u64
  | IOError io_error
  | PanicNilSection

definition maxUint64 :: u64 where
  "maxUint64 = - 1"

section \<open>Symbol resolver: findSymbol\<close>

definition deref :: "File \<Rightarrow> section_ptr \<Rightarrow> error + Section" where
  "deref file p =
     (if p < length (File_Sections file) then Inr (File_Sections file ! p)
      else Inl PanicNilSection)"

text \<open>
  The inner loop \<^verbatim>\<open>for n = i; n < len(file.Symbols); n++\<close>: the value of \<^verbatim>\<open>n\<close> when the
  loop is left.
\<close>

function next_symbol :: "Symbol list \<Rightarrow> Symbol \<Rightarrow> nat \<Rightarrow> nat" where
  "next_symbol syms symbol n =
     (if n < length syms then
        (if Symbol_Section (syms ! n) \<noteq> Symbol_Section symbol then length syms
         else if Symbol_Addr (syms ! n) > Symbol_Addr symbol then n
         else next_symbol syms symbol (n + 1))
      else n)"
  by pat_completeness auto
termination
  by (relation "measure (\<lambda>(syms, symbol, n). length syms - n)") auto

declare next_symbol.simps [simp del]

text \<open>
  The last two statements of the matched branch: \<^verbatim>\<open>offset := symbol.Section.Offset +
  symbol.Addr\<close> and the return of offset and size.
\<close>

definition symbol_offset :: "File \<Rightarrow> Symbol \<Rightarrow> u64 \<Rightarrow> error + (u64 \<times> u64)" where
  "symbol_offset file symbol sz =
     (case deref file (Symbol_Section symbol) of
        Inl e \<Rightarrow> Inl e
      | Inr sec \<Rightarrow> Inr (Section_Offset sec + Symbol_Addr symbol, sz))"

text \<open>
  The body of \<^verbatim>\<open>if symbol.Name == symbolName\<close>, for the symbol at index \<open>i\<close>. On an
  error the Go function returns \<^verbatim>\<open>maxUint64, maxUint64\<close> beside it; the model returns
  the error alone.
\<close>

definition symbol_end :: "File \<Rightarrow> Symbol \<Rightarrow> nat \<Rightarrow> error + u64" where
  "symbol_end file symbol n =
     (if n < length (File_Symbols file) then Inr (Symbol_Addr (File_Symbols file ! n))
      else (case deref file (Symbol_Section symbol) of
              Inl e \<Rightarrow> Inl e
            | Inr sec \<Rightarrow> Inr (Section_Size sec)))"

definition findSymbol_match :: "File \<Rightarrow> nat \<Rightarrow> Symbol \<Rightarrow> error + (u64 \<times> u64)" where
  "findSymbol_match file i symbol =
     (let n = next_symbol (File_Symbols file) symbol i in
      if Symbol_Size symbol = 0 then
        (case symbol_end file symbol n of
           Inl e \<Rightarrow> Inl e
         | Inr end_addr \<Rightarrow>
             if end_addr \<le> Symbol_Addr symbol \<or> end_addr > Symbol_Addr symbol + 4096
             then Inl (InvalidEndAddress (Symbol_Addr symbol) end_addr)
             else symbol_offset file symbol (end_addr - Symbol_Addr symbol))
      else symbol_offset file symbol (Symbol_Size symbol))"

text \<open>The outer loop \<^verbatim>\<open>for i, symbol := range file.Symbols\<close>, from index \<open>i\<close> on.\<close>

fun findSymbol_from :: "File \<Rightarrow> string \<Rightarrow> nat \<Rightarrow> Symbol list \<Rightarrow> error + (u64 \<times> u64)" where
  "findSymbol_from file symbolName i [] = Inl SymbolNotFound"
| "findSymbol_from file symbolName i (symbol # rest) =
     (if Symbol_Name symbol = symbolName then findSymbol_match file i symbol
      else findSymbol_from file symbolName (i + 1) rest)"

definition findSymbol :: "File \<Rightarrow> string \<Rightarrow> error + (u64 \<times> u64)" where
  "findSymbol file symbolName = findSymbol_from file symbolName 0 (File_Symbols file)"

section \<open>Byte source and output sink\<close>

text \<open>
  An \<^verbatim>\<open>int64\<close> is a 64-bit word read with \<open>sint\<close>; the conversion \<^verbatim>\<open>int64(offset)\<close> of a
  \<^verbatim>\<open>uint64\<close> keeps the bits, so it is the identity on the word.

  The sink \<^verbatim>\<open>w io.Writer\<close> is the sequence of bytes written to it so far. It accepts
  \<open>room\<close> more bytes (\<open>None\<close>: any number); a \<^verbatim>\<open>Write\<close> that does not fit writes what
  fits and returns the sink's error \<open>failure\<close>.
\<close>

type_synonym i64 = "64 word"

record Writer =
  written :: "byte list"
  room :: "nat option"
  failure :: io_error

definition Write :: "Writer \<Rightarrow> byte list \<Rightarrow> Writer \<times> io_error option" where
  "Write w p =
     (case room w of
        None \<Rightarrow> (w\<lparr>written := written w @ p\<rparr>, None)
      | Some k \<Rightarrow>
          if length p \<le> k
          then (w\<lparr>written := written w @ p, room := Some (k - length p)\<rparr>, None)
          else (w\<lparr>written := written w @ take k p, room := Some 0\<rparr>, Some (failure w)))"

text \<open>
  \<^verbatim>\<open>ReadAt(p, off)\<close> on a source held in memory (Go's \<^verbatim>\<open>bytes.Reader\<close>), for a buffer of
  \<open>k\<close> bytes: the bytes read and the error. Fewer than \<open>k\<close> bytes come with \<open>EOF\<close>.
\<close>

definition ReadAt :: "byte list \<Rightarrow> nat \<Rightarrow> i64 \<Rightarrow> byte list \<times> io_error option" where
  "ReadAt r k off =
     (if sint off < 0 then ([], Some ErrNegativeOffset)
      else if sint off \<ge> int (length r) then ([], Some EOF)
      else (let bs = take k (drop (nat (sint off)) r)
            in (bs, if length bs < k then Some EOF else None)))"

text \<open>
  \<^verbatim>\<open>io.SectionReader\<close>, with the fields \<^verbatim>\<open>Read\<close> uses. \<^verbatim>\<open>NewSectionReader(r, off, n)\<close> is
  that of the Go releases the source was written for, where the limit is \<^verbatim>\<open>off + n\<close>;
  later releases cap the limit when the sum overflows, which gives the same reader
  for the two readers of \<^verbatim>\<open>copyAndInject\<close> whenever \<^verbatim>\<open>int64(offset)\<close> is not negative.
\<close>

record SectionReader =
  sr_r :: "byte list"
  sr_off :: i64
  sr_limit :: i64

definition NewSectionReader :: "byte list \<Rightarrow> i64 \<Rightarrow> i64 \<Rightarrow> SectionReader" where
  "NewSectionReader r off n = \<lparr>sr_r = r, sr_off = off, sr_limit = off + n\<rparr>"

text \<open>
  \<^verbatim>\<open>(*SectionReader).Read(p)\<close> for a buffer of \<open>plen\<close> bytes. The slice expression
  \<^verbatim>\<open>p[0:max]\<close> panics when \<^verbatim>\<open>max\<close>, an \<^verbatim>\<open>int64\<close> difference, is negative.
\<close>

definition sr_Read :: "SectionReader \<Rightarrow> nat \<Rightarrow> byte list \<times> SectionReader \<times> io_error option" where
  "sr_Read s plen =
     (if sint (sr_off s) \<ge> sint (sr_limit s) then ([], s, Some EOF)
      else
        (let max = sint (sr_limit s - sr_off s) in
         if int plen > max \<and> max < 0 then ([], s, Some PanicSliceBounds)
         else
           (let k = (if int plen > max then nat max else plen);
                (bs, err) = ReadAt (sr_r s) k (sr_off s)
            in (bs, s\<lparr>sr_off := sr_off s + of_nat (length bs)\<rparr>, err))))"

text \<open>
  \<^verbatim>\<open>io.Copy(dst, src)\<close>: the loop of \<^verbatim>\<open>io.copyBuffer\<close> with its buffer of 32 KiB, which
  is what runs for a \<^verbatim>\<open>SectionReader\<close> (it has no \<^verbatim>\<open>WriteTo\<close>) and a plain sink. The end of the source
  (\<open>EOF\<close> from \<^verbatim>\<open>Read\<close>) ends the loop and is not reported: a \<^verbatim>\<open>Copy\<close> that reaches
  it returns \<^verbatim>\<open>nil\<close>.
\<close>

function io_Copy :: "Writer \<Rightarrow> SectionReader \<Rightarrow> Writer \<times> io_error option" where
  "io_Copy dst src =
     (let (bs, src', er) = sr_Read src 32768 in
      if bs \<noteq> [] then
        (let (dst', ew) = Write dst bs in
         if ew \<noteq> None then (dst', ew)
         else if er \<noteq> None then (dst', if er = Some EOF then None else er)
         else io_Copy dst' src')
      else if er \<noteq> None then (dst, if er = Some EOF then None else er)
      else io_Copy dst src')"
  by pat_completeness auto

lemma sint_sub_pos:
  fixes l o' :: i64
  assumes "sint o' < sint l" "0 \<le> sint (l - o')"
  shows "sint (l - o') = sint l - sint o'"
proof -
  let ?d = "sint l - sint o'"
  have b: "sint l < 9223372036854775808" "- 9223372036854775808 \<le> sint o'"
    using sint_lt [of l] sint_ge [of o'] by simp_all
  have eq: "sint (l - o') = signed_take_bit 63 ?d"
    by (simp add: sint_word_ariths)
  have nn: "0 \<le> signed_take_bit 63 ?d"
    using assms(2) unfolding eq .
  have "?d < 9223372036854775808"
  proof (rule ccontr)
    assume "\<not> ?d < 9223372036854775808"
    then have "2^63 \<le> ?d" by simp
    then have "signed_take_bit 63 ?d \<le> ?d - 2^(Suc 63)"
      by (rule signed_take_bit_int_less_eq)
    then have "signed_take_bit 63 ?d \<le> ?d - 18446744073709551616" by simp
    with b nn show False by linarith
  qed
  with assms(1) have "signed_take_bit 63 ?d = ?d"
    by (intro signed_take_bit_int_eq_self) simp_all
  with eq show ?thesis by simp
qed

lemma sint_add_nat:
  fixes o' l :: i64
  assumes "0 \<le> sint o'" "sint o' + int k \<le> sint l"
  shows "sint (o' + of_nat k) = sint o' + int k"
proof -
  have b: "sint l < 9223372036854775808"
    using sint_lt [of l] by simp
  have k: "int k < 9223372036854775808" using assms b by linarith
  have "sint (of_nat k :: i64) = signed_take_bit 63 (int k)"
    by (simp add: signed_of_nat)
  also have "\<dots> = int k" using k by (intro signed_take_bit_int_eq_self) simp_all
  finally have sk: "sint (of_nat k :: i64) = int k" .
  have "sint (o' + of_nat k) = signed_take_bit 63 (sint o' + int k)"
    by (simp add: sint_word_ariths sk)
  also have "\<dots> = sint o' + int k"
    using assms b by (intro signed_take_bit_int_eq_self) simp_all
  finally show ?thesis .
qed

lemma ReadAt_None:
  "ReadAt r k off = (bs, None) \<Longrightarrow>
     0 \<le> sint off \<and> length bs = k \<and> bs = take k (drop (nat (sint off)) r)
     \<and> nat (sint off) + k \<le> length r"
  by (auto simp: ReadAt_def Let_def split: if_splits)

lemma sr_Read_None:
  assumes "sr_Read s plen = (bs, s', None)" "0 < plen"
  shows "sint (sr_off s) < sint (sr_limit s) \<and> 0 \<le> sint (sr_off s) \<and> bs \<noteq> []
     \<and> sr_limit s' = sr_limit s \<and> sr_r s' = sr_r s
     \<and> sint (sr_off s') = sint (sr_off s) + int (length bs)
     \<and> sint (sr_off s') \<le> sint (sr_limit s)"
proof -
  from assms(1) have lt: "sint (sr_off s) < sint (sr_limit s)"
    by (auto simp: sr_Read_def split: if_splits)
  define mx where "mx = sint (sr_limit s - sr_off s)"
  from assms lt have nn: "0 \<le> mx"
    by (auto simp: sr_Read_def mx_def Let_def split: if_splits prod.splits)
  then have mx: "mx = sint (sr_limit s) - sint (sr_off s)"
    unfolding mx_def using lt by (intro sint_sub_pos) simp_all
  define k where "k = (if int plen > mx then nat mx else plen)"
  from assms lt nn have ra: "ReadAt (sr_r s) k (sr_off s) = (bs, None)"
    and s': "s' = s\<lparr>sr_off := sr_off s + of_nat (length bs)\<rparr>"
    by (auto simp: sr_Read_def mx_def k_def Let_def split: if_splits prod.splits)
  from ReadAt_None [OF ra] have o0: "0 \<le> sint (sr_off s)" and len: "length bs = k"
    by blast+
  have kpos: "0 < k" using assms(2) mx lt by (simp add: k_def)
  have kle: "sint (sr_off s) + int k \<le> sint (sr_limit s)"
    using mx nn by (auto simp: k_def)
  have "sint (sr_off s + of_nat k) = sint (sr_off s) + int k"
    using o0 kle by (rule sint_add_nat)
  with lt o0 len kpos kle s' show ?thesis by auto
qed

termination io_Copy
proof (relation "measure (\<lambda>(dst, src). nat (sint (sr_limit src) - sint (sr_off src)))",
    goal_cases)
  case 1
  show ?case by simp
next
  case (2 dst src x bs y src' er x2 dst' ew)
  then have "sr_Read src 32768 = (bs, src', None)" by simp
  from sr_Read_None [OF this] show ?case using 2 by auto
next
  case (3 dst src x bs y src' er)
  then have "sr_Read src 32768 = (bs, src', None)" by simp
  from sr_Read_None [OF this] show ?case using 3 by auto
qed

declare io_Copy.simps [simp del]

section \<open>Patcher\<close>

definition maxInt64 :: i64 where
  "maxInt64 = 0x7FFFFFFFFFFFFFFF"

text \<open>
  \<^verbatim>\<open>copyAndInject\<close>. The named result \<^verbatim>\<open>err\<close> is threaded through the three steps; \<open>pos\<close>
  is \<^verbatim>\<open>int64(offset) + int64(len(buf))\<close> and the length of the last section is
  \<^verbatim>\<open>1<<63-1-pos\<close>, both in \<^verbatim>\<open>int64\<close>.
\<close>

definition copyAndInject :: "byte list \<Rightarrow> Writer \<Rightarrow> u64 \<Rightarrow> byte list \<Rightarrow> Writer \<times> io_error option" where
  "copyAndInject r w offset buf =
     (let (w1, err1) = io_Copy w (NewSectionReader r 0 offset);
          (w2, err2) = (if err1 = None then Write w1 buf else (w1, err1));
          pos = offset + of_nat (length buf);
          (w3, err3) = (if err2 = None
                        then io_Copy w2 (NewSectionReader r pos (maxInt64 - pos))
                        else (w2, err2));
          err4 = (if err3 = Some EOF then Some ErrUnexpectedEOF else err3)
      in (w3, err4))"

text \<open>
  \<^verbatim>\<open>make([]byte, n)\<close> and the built-in \<^verbatim>\<open>copy(dst, src)\<close>, which overwrites the first
  \<^verbatim>\<open>min(len(dst), len(src))\<close> bytes of \<^verbatim>\<open>dst\<close>; the model returns the new \<^verbatim>\<open>dst\<close>. A
  Go string is the sequence of its bytes.

  \<open>make_bytes n\<close> is the slice that a \<^verbatim>\<open>make\<close> which returns yields. \<^verbatim>\<open>make([]byte, n)\<close> does
  not return for every \<open>n\<close>: it panics (\<^verbatim>\<open>makeslice: len out of range\<close>) when \<open>n\<close> is
  above the allocation limit of the runtime, \<open>maxAlloc\<close>, which is \<open>2 ^ 48\<close> bytes on the
  64-bit hosts of this package and lies below \<open>2 ^ 63\<close> on every platform. That panic is
  not a branch of \<open>InjectStringSymbol\<close> below: what is proved of a buffer of \<open>size\<close>
  bytes that is allocated without \<open>size\<close> bytes of the source having been read is
  proved for \<open>size \<le> maxAlloc\<close> only. Exhaustion of the machine's memory below the
  limit is not modelled either.
\<close>

definition maxAlloc :: nat where
  "maxAlloc = 281474976710656"

definition make_bytes :: "nat \<Rightarrow> byte list" where
  "make_bytes n = replicate n 0"

definition go_copy :: "byte list \<Rightarrow> byte list \<Rightarrow> byte list" where
  "go_copy dst src =
     (let n = min (length dst) (length src) in take n src @ drop n dst)"

text \<open>
  The block \<^verbatim>\<open>if from != ""\<close> of \<^verbatim>\<open>InjectStringSymbol\<close>: the error it returns, if any.
\<close>

definition check_existing :: "byte list \<Rightarrow> u64 \<Rightarrow> u64 \<Rightarrow> byte list \<Rightarrow> error option" where
  "check_existing r offset sz from =
     (let expected = go_copy (make_bytes (unat sz)) from;
          (bs, err) = ReadAt r (unat sz) offset;
          existing = go_copy (make_bytes (unat sz)) bs
      in case err of
           Some e \<Rightarrow> Some (IOError e)
         | None \<Rightarrow>
             if existing \<noteq> expected then Some (ContentsMismatch existing expected)
             else None)"

definition InjectStringSymbol ::
    "File \<Rightarrow> Writer \<Rightarrow> string \<Rightarrow> byte list \<Rightarrow> byte list \<Rightarrow> Writer \<times> error option" where
  "InjectStringSymbol file w symbol val from =
     (case findSymbol file symbol of
        Inl err \<Rightarrow> (w, Some err)
      | Inr (offset, sz) \<Rightarrow>
          if of_nat (length val) + 1 > sz
          then (w, Some (ValueOverflows (length val) sz))
          else
            (case (if from \<noteq> [] then check_existing (File_r file) offset sz from else None) of
               Some err \<Rightarrow> (w, Some err)
             | None \<Rightarrow>
                 (let buf = go_copy (make_bytes (unat sz)) val;
                      (w', err) = copyAndInject (File_r file) w offset buf
                  in (w', map_option IOError err))))"

text \<open>\<^verbatim>\<open>binary.LittleEndian.PutUint64\<close> on a fresh buffer of 8 bytes, and \<^verbatim>\<open>Uint64\<close>.\<close>

definition PutUint64 :: "u64 \<Rightarrow> byte list" where
  "PutUint64 v =
     [ucast v, ucast (drop_bit 8 v), ucast (drop_bit 16 v), ucast (drop_bit 24 v),
      ucast (drop_bit 32 v), ucast (drop_bit 40 v), ucast (drop_bit 48 v),
      ucast (drop_bit 56 v)]"

definition Uint64 :: "byte list \<Rightarrow> u64" where
  "Uint64 b =
     ucast (b ! 0) OR push_bit 8 (ucast (b ! 1)) OR push_bit 16 (ucast (b ! 2))
     OR push_bit 24 (ucast (b ! 3)) OR push_bit 32 (ucast (b ! 4))
     OR push_bit 40 (ucast (b ! 5)) OR push_bit 48 (ucast (b ! 6))
     OR push_bit 56 (ucast (b ! 7))"

definition InjectUint64Symbol ::
    "File \<Rightarrow> Writer \<Rightarrow> string \<Rightarrow> u64 \<Rightarrow> Writer \<times> error option" where
  "InjectUint64Symbol file w symbol val =
     (case findSymbol file symbol of
        Inl err \<Rightarrow> (w, Some err)
      | Inr (offset, sz) \<Rightarrow>
          if sz \<noteq> 8 then (w, Some (NotUint64 symbol sz))
          else
            (let buf = PutUint64 val;
                 (w', err) = copyAndInject (File_r file) w offset buf
             in (w', map_option IOError err)))"

section \<open>Format dispatcher: OpenFile and DumpSymbols\<close>

text \<open>
  The three format readers and the three dump routines are defined in other files of
  the package; here they are parameters. A reader returns a \<^verbatim>\<open>File\<close> or an error; a dump
  routine prints the symbols and returns its error, if any. The type assertion
  \<^verbatim>\<open>err.(cantParseError)\<close> holds for the constructor \<open>cantParseError\<close> alone. Beside its
  result each entry point returns the formats it tried, in the order of the calls.
\<close>

datatype format = ELF | MachO | PE

record Readers =
  elfSymbolsFromFile :: "byte list \<Rightarrow> error + File"
  machoSymbolsFromFile :: "byte list \<Rightarrow> error + File"
  peSymbolsFromFile :: "byte list \<Rightarrow> error + File"

record Dumpers =
  dumpElfSymbols :: "byte list \<Rightarrow> error option"
  dumpMachoSymbols :: "byte list \<Rightarrow> error option"
  dumpPESymbols :: "byte list \<Rightarrow> error option"

fun is_cantParseError :: "error \<Rightarrow> bool" where
  "is_cantParseError (cantParseError m) = True"
| "is_cantParseError e = False"

text \<open>
  \<^verbatim>\<open>elfError, ok := err.(cantParseError)\<close> on the error of a reader's result: \<open>Some\<close> of the
  error when \<^verbatim>\<open>ok\<close>, \<open>None\<close> when the assertion fails or \<^verbatim>\<open>err\<close> is \<^verbatim>\<open>nil\<close>.
\<close>

fun as_cantParseError :: "error + 'a \<Rightarrow> error option" where
  "as_cantParseError (Inl err) = (if is_cantParseError err then Some err else None)"
| "as_cantParseError (Inr file) = None"

text \<open>The tail of \<^verbatim>\<open>OpenFile\<close>, from \<^verbatim>\<open>if err != nil\<close> on.\<close>

fun attach :: "byte list \<Rightarrow> error + File \<Rightarrow> error + File" where
  "attach r (Inl err) = Inl err"
| "attach r (Inr file) = Inr (file\<lparr>File_r := r\<rparr>)"

definition OpenFile :: "Readers \<Rightarrow> byte list \<Rightarrow> (error + File) \<times> format list" where
  "OpenFile rd r =
     (let res = elfSymbolsFromFile rd r in
      case as_cantParseError res of
        Some elfError \<Rightarrow>
          (let res2 = machoSymbolsFromFile rd r in
           case as_cantParseError res2 of
             Some e2 \<Rightarrow>
               (let res3 = peSymbolsFromFile rd r in
                case as_cantParseError res3 of
                  Some e3 \<Rightarrow> (Inl elfError, [ELF, MachO, PE])
                | None \<Rightarrow> (attach r res3, [ELF, MachO, PE]))
           | None \<Rightarrow> (attach r res2, [ELF, MachO]))
      | None \<Rightarrow> (attach r res, [ELF]))"

text \<open>The same assertion on the error a dump routine returns.\<close>

fun dump_cantParseError :: "error option \<Rightarrow> error option" where
  "dump_cantParseError (Some err) = (if is_cantParseError err then Some err else None)"
| "dump_cantParseError None = None"

definition DumpSymbols :: "Dumpers \<Rightarrow> byte list \<Rightarrow> error option \<times> format list" where
  "DumpSymbols d r =
     (let err = dumpElfSymbols d r in
      case dump_cantParseError err of
        Some elfError \<Rightarrow>
          (let err2 = dumpMachoSymbols d r in
           case dump_cantParseError err2 of
             Some e2 \<Rightarrow>
               (let err3 = dumpPESymbols d r in
                case dump_cantParseError err3 of
                  Some e3 \<Rightarrow> (Some elfError, [ELF, MachO, PE])
                | None \<Rightarrow> (err3, [ELF, MachO, PE]))
           | None \<Rightarrow> (err2, [ELF, MachO]))
      | None \<Rightarrow> (err, [ELF]))"

section \<open>Notions used in the statements\<close>

text \<open>
  None of the following is code of the package. \<open>section_bytes\<close> is what a
  \<^verbatim>\<open>SectionReader\<close> yields until \<open>EOF\<close>, \<open>suffix_bytes\<close> the bytes of the source
  from position \<open>pos\<close> up to the largest \<^verbatim>\<open>int64\<close> offset; they state what \<open>io_Copy\<close>
  writes.
\<close>

definition section_bytes :: "SectionReader \<Rightarrow> byte list" where
  "section_bytes s =
     take (nat (sint (sr_limit s) - sint (sr_off s))) (drop (nat (sint (sr_off s))) (sr_r s))"

definition suffix_bytes :: "byte list \<Rightarrow> nat \<Rightarrow> byte list" where
  "suffix_bytes r pos = take (9223372036854775807 - pos) (drop pos r)"

text \<open>
  The size inference in the words of the specification: the first symbol after index
  \<open>i\<close> that lies in another section or, in the same section, at a strictly greater
  address; and the end address inferred from it, the section's size when that symbol
  is in another section or there is none.
\<close>

definition later_bound :: "Symbol list \<Rightarrow> Symbol \<Rightarrow> nat \<Rightarrow> Symbol option" where
  "later_bound syms symbol i =
     find (\<lambda>s2. Symbol_Section s2 \<noteq> Symbol_Section symbol \<or> Symbol_Addr s2 > Symbol_Addr symbol)
       (drop (Suc i) syms)"

definition inferred_end :: "File \<Rightarrow> Symbol \<Rightarrow> nat \<Rightarrow> error + u64" where
  "inferred_end file symbol i =
     (case later_bound (File_Symbols file) symbol i of
        Some s2 \<Rightarrow>
          if Symbol_Section s2 = Symbol_Section symbol then Inr (Symbol_Addr s2)
          else map_sum id Section_Size (deref file (Symbol_Section symbol))
      | None \<Rightarrow> map_sum id Section_Size (deref file (Symbol_Section symbol)))"

text \<open>
  The byte range \<open>[off, off + sz)\<close> lies within the file range of the section,
  \<open>[Section_Offset, Section_Offset + Section_Size)\<close>, as natural numbers.
\<close>

definition range_in_section :: "u64 \<Rightarrow> u64 \<Rightarrow> Section \<Rightarrow> bool" where
  "range_in_section off sz sec \<longleftrightarrow>
     unat (Section_Offset sec) \<le> unat off
     \<and> unat off + unat sz \<le> unat (Section_Offset sec) + unat (Section_Size sec)"

text \<open>
  The zero-padded representation of \<open>s\<close> in \<open>n\<close> bytes; it holds the first \<open>n\<close> bytes
  of \<open>s\<close> when \<open>s\<close> is longer.
\<close>

definition zero_padded :: "nat \<Rightarrow> byte list \<Rightarrow> byte list" where
  "zero_padded n s = take n s @ replicate (n - length s) 0"

text \<open>The classification "this is not a file of this format" of a reader's error.\<close>

definition wrong_format :: "error \<Rightarrow> bool" where
  "wrong_format e \<longleftrightarrow> (\<exists>m. e = cantParseError m)"

section \<open>Concrete inputs\<close>

text \<open>A sink that accepts any number of bytes, empty at the start.\<close>

definition sink :: Writer where
  "sink = \<lparr>written = [], room = None, failure = ErrShortWrite\<rparr>"

text \<open>
  A file of 64 bytes with one section at file offset 16. Symbol \<open>a\<close> occurs twice; its
  first occurrence, 4 bytes at file offset 20, holds the string \<open>old\<close> and a nul. Symbols
  \<open>b\<close> and \<open>c\<close> have no recorded size.
\<close>

definition example_file :: File where
  "example_file =
     \<lparr>File_r = replicate 20 0 @ [111, 108, 100, 0] @ replicate 40 0,
      File_Symbols =
        [\<lparr>Symbol_Name = ''a'', Symbol_Addr = 4, Symbol_Size = 4, Symbol_Section = 0\<rparr>,
         \<lparr>Symbol_Name = ''b'', Symbol_Addr = 8, Symbol_Size = 0, Symbol_Section = 0\<rparr>,
         \<lparr>Symbol_Name = ''a'', Symbol_Addr = 16, Symbol_Size = 4, Symbol_Section = 0\<rparr>,
         \<lparr>Symbol_Name = ''c'', Symbol_Addr = 24, Symbol_Size = 0, Symbol_Section = 0\<rparr>],
      File_Sections =
        [\<lparr>Section_Name = ''.data'', Section_Addr = 0, Section_Offset = 16, Section_Size = 32\<rparr>]\<rparr>"

text \<open>Two symbols 5 bytes apart, 10 bytes below the top of the address space.\<close>

definition top_file :: File where
  "top_file =
     \<lparr>File_r = [],
      File_Symbols =
        [\<lparr>Symbol_Name = ''s'', Symbol_Addr = 0xFFFFFFFFFFFFFFF6, Symbol_Size = 0,
          Symbol_Section = 0\<rparr>,
         \<lparr>Symbol_Name = ''t'', Symbol_Addr = 0xFFFFFFFFFFFFFFFB, Symbol_Size = 1,
          Symbol_Section = 0\<rparr>],
      File_Sections =
        [\<lparr>Section_Name = ''.data'', Section_Addr = 0, Section_Offset = 32,
          Section_Size = 0xFFFFFFFFFFFFFFFF\<rparr>]\<rparr>"

text \<open>A symbol whose recorded size, 100, exceeds the 10 bytes of its section.\<close>

definition wide_file :: File where
  "wide_file =
     \<lparr>File_r = replicate 200 7,
      File_Symbols =
        [\<lparr>Symbol_Name = ''s'', Symbol_Addr = 4, Symbol_Size = 100, Symbol_Section = 0\<rparr>],
      File_Sections =
        [\<lparr>Section_Name = ''.data'', Section_Addr = 0, Section_Offset = 16,
          Section_Size = 10\<rparr>]\<rparr>"

text \<open>
  A file of 2 bytes whose only section covers both; the symbol, of recorded size 3,
  lies at file offset 5, past the end of the file.
\<close>

definition short_file :: File where
  "short_file =
     \<lparr>File_r = [1, 2],
      File_Symbols =
        [\<lparr>Symbol_Name = ''s'', Symbol_Addr = 5, Symbol_Size = 3, Symbol_Section = 0\<rparr>],
      File_Sections =
        [\<lparr>Section_Name = ''.data'', Section_Addr = 0, Section_Offset = 0,
          Section_Size = 2\<rparr>]\<rparr>"

text \<open>
  Readers that all answer "not this format", and dump routines of which the second
  fails on a malformed file.
\<close>

definition garbage_readers :: Readers where
  "garbage_readers =
     \<lparr>elfSymbolsFromFile = (\<lambda>r. Inl (cantParseError ''bad ELF magic'')),
      machoSymbolsFromFile = (\<lambda>r. Inl (cantParseError ''bad Mach-O magic'')),
      peSymbolsFromFile = (\<lambda>r. Inl (cantParseError ''bad PE magic''))\<rparr>"

definition macho_dumpers :: Dumpers where
  "macho_dumpers =
     \<lparr>dumpElfSymbols = (\<lambda>r. Some (cantParseError ''bad ELF magic'')),
      dumpMachoSymbols = (\<lambda>r. Some (otherError ''truncated load command'')),
      dumpPESymbols = (\<lambda>r. None)\<rparr>"

section \<open>Properties of the input/output layer\<close>

lemma Write_Nil: "Write w [] = (w, None)"
  by (auto simp: Write_def split: option.splits)

lemma Write_append:
  "Write w a = (w', None) \<Longrightarrow> Write w (a @ b) = Write w' b"
  by (auto simp: Write_def split: option.splits if_splits)

lemma Write_fail_prefix:
  "Write w (take k xs) = (w', Some e) \<Longrightarrow> Write w xs = (w', Some e)"
  by (auto simp: Write_def min_def split: option.splits if_splits)

lemma sint_sub_nonneg:
  fixes l o' :: i64
  assumes "0 \<le> sint o'" "sint o' < sint l"
  shows "sint (l - o') = sint l - sint o'"
proof -
  have b: "sint l < 9223372036854775808"
    using sint_lt [of l] by simp
  have "sint (l - o') = signed_take_bit 63 (sint l - sint o')"
    by (simp add: sint_word_ariths)
  also have "\<dots> = sint l - sint o'"
    using assms b by (intro signed_take_bit_int_eq_self) simp_all
  finally show ?thesis .
qed

lemma io_Copy_section:
  "0 \<le> sint (sr_off src) \<Longrightarrow> io_Copy dst src = Write dst (section_bytes src)"
proof (induction dst src rule: io_Copy.induct)
  case (1 dst src)
  let ?off = "sint (sr_off src)" and ?lim = "sint (sr_limit src)"
  show ?case
  proof (cases "?lim \<le> ?off")
    case True
    then have "sr_Read src 32768 = ([], src, Some EOF)" by (simp add: sr_Read_def)
    moreover from True have "section_bytes src = []" by (simp add: section_bytes_def)
    ultimately show ?thesis by (simp add: io_Copy.simps [of dst src] Write_Nil)
  next
    case False
    then have lt: "?off < ?lim" by simp
    have mx: "sint (sr_limit src - sr_off src) = ?lim - ?off"
      using "1.prems" lt by (rule sint_sub_nonneg)
    define k where "k = (if 32768 > ?lim - ?off then nat (?lim - ?off) else 32768)"
    have kpos: "0 < k" and kle: "int k \<le> ?lim - ?off" using lt by (auto simp: k_def)
    obtain bs er where ra: "ReadAt (sr_r src) k (sr_off src) = (bs, er)" by force
    define src' where "src' = src\<lparr>sr_off := sr_off src + of_nat (length bs)\<rparr>"
    have rd: "sr_Read src 32768 = (bs, src', er)"
      using lt mx ra by (auto simp: sr_Read_def Let_def k_def src'_def)
    let ?rest = "drop (nat ?off) (sr_r src)"
    have sb: "section_bytes src = take (nat (?lim - ?off)) ?rest"
      by (simp add: section_bytes_def)
    show ?thesis
    proof (cases "int (length (sr_r src)) \<le> ?off")
      case True
      with "1.prems" ra have "bs = []" "er = Some EOF" by (auto simp: ReadAt_def)
      moreover from True have "section_bytes src = []" by (simp add: sb)
      ultimately show ?thesis using rd by (simp add: io_Copy.simps [of dst src] Write_Nil)
    next
      case inside: False
      with "1.prems" ra have bs: "bs = take k ?rest"
        and er: "er = (if length bs < k then Some EOF else None)"
        by (auto simp: ReadAt_def Let_def)
      from inside "1.prems" have inside': "nat ?off < length (sr_r src)" by linarith
      from inside' kpos have ne: "bs \<noteq> []" by (simp add: bs)
      from kle have kle': "k \<le> nat (?lim - ?off)" by linarith
      have pre: "bs = take k (section_bytes src)"
        using kle' by (simp add: bs sb min_def)
      obtain dst' ew where wr: "Write dst bs = (dst', ew)" by force
      show ?thesis
      proof (cases ew)
        case (Some e)
        with wr pre have "Write dst (section_bytes src) = (dst', Some e)"
          by (auto intro: Write_fail_prefix)
        with Some wr rd ne show ?thesis by (simp add: io_Copy.simps [of dst src])
      next
        case None
        show ?thesis
        proof (cases "length bs < k")
          case True
          then have "length ?rest < k" by (simp add: bs)
          with kle' have "section_bytes src = bs" by (simp add: sb bs)
          with None wr rd ne er True show ?thesis by (simp add: io_Copy.simps [of dst src])
        next
          case full: False
          with er have ern: "er = None" by simp
          have len: "length bs = k" using full by (simp add: bs)
          have off': "sint (sr_off src') = ?off + int k"
            unfolding src'_def len using "1.prems" kle
            by (simp add: sint_add_nat [where l = "sr_limit src"])
          have same: "sr_limit src' = sr_limit src" "sr_r src' = sr_r src"
            by (simp_all add: src'_def)
          have n1: "nat (?lim - (?off + int k)) = nat (?lim - ?off) - k"
            and n2: "nat (?off + int k) = k + nat ?off"
            using "1.prems" by linarith+
          have "section_bytes src' = drop k (section_bytes src)"
            unfolding section_bytes_def off' same n1 n2 by (simp add: drop_take)
          with pre have split: "section_bytes src = bs @ section_bytes src'"
            by (metis append_take_drop_id)
          have "io_Copy dst' src' = Write dst' (section_bytes src')"
            using "1.IH"(1) [of "(bs, src', er)" bs "(src', er)" src' er "(dst', ew)" dst' ew] rd ne wr None ern off' "1.prems"
            by simp
          moreover have "Write dst (section_bytes src) = Write dst' (section_bytes src')"
            using wr None by (simp add: split Write_append)
          ultimately show ?thesis
            using None wr rd ne ern by (simp add: io_Copy.simps [of dst src])
        qed
      qed
    qed
  qed
qed


lemma sint_unat:
  fixes x :: u64
  assumes "unat x < 9223372036854775808"
  shows "sint x = int (unat x)"
proof -
  have "int (unat x) < 9223372036854775808" using assms by linarith
  then have u: "uint x < 9223372036854775808" by simp
  have u0: "- 9223372036854775808 \<le> uint x"
    using uint_ge_0 [of x] by linarith
  have "sint x = signed_take_bit 63 (uint x)" by (simp add: sint_uint)
  also have "\<dots> = uint x"
    using u u0 by (intro signed_take_bit_int_eq_self) simp_all
  finally show ?thesis by simp
qed

lemma unat_add_len:
  fixes x :: u64
  assumes "unat x + n < 9223372036854775808"
  shows "unat (x + of_nat n) = unat x + n"
proof -
  have "n < 18446744073709551616" using assms by linarith
  then have "unat (of_nat n :: u64) = n" by (simp add: unat_of_nat)
  moreover have "unat x + n < 18446744073709551616" using assms by linarith
  ultimately show ?thesis by (simp add: unat_word_ariths)
qed

lemma copyAndInject_writes:
  assumes "unat offset + length buf < 9223372036854775808"
  shows "copyAndInject r w offset buf =
     (let (w1, err1) = Write w (take (unat offset) r);
          (w2, err2) = (if err1 = None then Write w1 buf else (w1, err1));
          (w3, err3) = (if err2 = None
                        then Write w2 (suffix_bytes r (unat offset + length buf))
                        else (w2, err2))
      in (w3, if err3 = Some EOF then Some ErrUnexpectedEOF else err3))"
proof -
  let ?pos = "offset + of_nat (length buf)"
  from assms have o: "unat offset < 9223372036854775808" by linarith
  have so: "sint offset = int (unat offset)" using o by (rule sint_unat)
  have up: "unat ?pos = unat offset + length buf" using assms by (rule unat_add_len)
  have sp: "sint ?pos = int (unat offset + length buf)"
    using sint_unat [of ?pos] assms up by simp
  have sm: "sint maxInt64 = 9223372036854775807" by (simp add: maxInt64_def)
  have r1: "io_Copy w' (NewSectionReader r 0 offset) = Write w' (take (unat offset) r)" for w'
    by (subst io_Copy_section) (simp_all add: NewSectionReader_def section_bytes_def so)
  have lim: "?pos + (maxInt64 - ?pos) = maxInt64" by simp
  have n3: "nat (9223372036854775807 - int (unat offset + length buf))
              = 9223372036854775807 - (unat offset + length buf)"
    by linarith
  have r3: "io_Copy w' (NewSectionReader r ?pos (maxInt64 - ?pos))
              = Write w' (suffix_bytes r (unat offset + length buf))" for w'
    apply (subst io_Copy_section)
     apply (simp add: NewSectionReader_def sp)
    unfolding NewSectionReader_def section_bytes_def suffix_bytes_def lim
    apply (simp only: SectionReader.simps sp sm n3 nat_int)
    done
  show ?thesis
    unfolding copyAndInject_def r1 r3 Let_def ..
qed

lemma Write_ok: "Write w p = (w', None) \<Longrightarrow> written w' = written w @ p"
  by (auto simp: Write_def split: option.splits if_splits)

lemma Write_unbounded: "room w = None \<Longrightarrow> Write w p = (w\<lparr>written := written w @ p\<rparr>, None)"
  by (simp add: Write_def)

lemma nth_append3: "length a = n \<Longrightarrow> (a @ b @ c) ! (n + length b + j) = c ! j"
  by (simp add: nth_append)

lemma copyAndInject_unbounded:
  assumes "room w = None" "unat offset + length buf < 2 ^ 63"
  shows "copyAndInject r w offset buf =
     (w\<lparr>written := written w @ take (unat offset) r @ buf
            @ suffix_bytes r (unat offset + length buf)\<rparr>, None)"
proof -
  have rng: "unat offset + length buf < 9223372036854775808" using assms(2) by simp
  show ?thesis
    unfolding copyAndInject_writes [OF rng] using assms(1)
    by (simp add: Write_unbounded)
qed

lemma copyAndInject_output:
  assumes "copyAndInject r w offset buf = (w', None)"
    and "unat offset + length buf \<le> length r"
    and "length r < 2 ^ 63"
  shows "written w' = written w @ take (unat offset) r @ buf @ drop (unat offset + length buf) r"
proof -
  let ?O = "unat offset" and ?L = "length buf"
  have n: "length r < 9223372036854775808" using assms(3) by simp
  with assms(2) have rng: "?O + ?L < 9223372036854775808" by linarith
  have suf: "suffix_bytes r (?O + ?L) = drop (?O + ?L) r"
    using n assms(2) by (simp add: suffix_bytes_def)
  obtain w1 e1 where w1: "Write w (take ?O r) = (w1, e1)" by force
  obtain w2 e2 where w2: "Write w1 buf = (w2, e2)" by force
  obtain w3 e3 where w3: "Write w2 (drop (?O + ?L) r) = (w3, e3)" by force
  note run = assms(1) [unfolded copyAndInject_writes [OF rng] suf]
  from run have e1: "e1 = None"
    by (auto simp: w1 split: if_splits)
  from run have e2: "e2 = None"
    by (auto simp: w1 e1 w2 split: if_splits)
  from run have e3: "e3 = None" and w': "w' = w3"
    by (auto simp: w1 e1 w2 e2 w3 split: if_splits)
  show ?thesis
    using Write_ok [OF w1 [unfolded e1]] Write_ok [OF w2 [unfolded e2]]
      Write_ok [OF w3 [unfolded e3]] w' by simp
qed

text \<open>
  Within the range of \<^verbatim>\<open>int64\<close> offsets, \<open>copyAndInject\<close> returns the error of an
  unexpected end of file only when the sink itself fails with an end-of-file error:
  the end of the source never produces it.
\<close>

lemma Write_error: "Write w p = (w', Some e) \<Longrightarrow> e = failure w"
  by (auto simp: Write_def split: option.splits if_splits)

lemma Write_failure: "Write w p = (w', x) \<Longrightarrow> failure w' = failure w"
  by (auto simp: Write_def split: option.splits if_splits)

lemma copyAndInject_truncation_from_sink:
  assumes "unat offset + length buf < 2 ^ 63"
    and "copyAndInject r w offset buf = (w', Some ErrUnexpectedEOF)"
  shows "failure w = EOF \<or> failure w = ErrUnexpectedEOF"
proof -
  have rng: "unat offset + length buf < 9223372036854775808" using assms(1) by simp
  obtain w1 e1 where w1: "Write w (take (unat offset) r) = (w1, e1)" by force
  obtain w2 e2 where w2: "Write w1 buf = (w2, e2)" by force
  obtain w3 e3 where w3: "Write w2 (suffix_bytes r (unat offset + length buf)) = (w3, e3)"
    by force
  have f1: "failure w1 = failure w" using w1 by (rule Write_failure)
  have f2: "failure w2 = failure w" using w2 f1 by (simp add: Write_failure)
  from assms(2) [unfolded copyAndInject_writes [OF rng]]
  have "e1 = Some EOF \<or> e1 = Some ErrUnexpectedEOF \<or> e2 = Some EOF \<or> e2 = Some ErrUnexpectedEOF
      \<or> e3 = Some EOF \<or> e3 = Some ErrUnexpectedEOF"
    by (auto simp: w1 w2 w3 split: if_splits)
  then show ?thesis
    using Write_error [of w "take (unat offset) r" w1] Write_error [of w1 buf w2]
      Write_error [of w2 "suffix_bytes r (unat offset + length buf)" w3] w1 w2 w3 f1 f2
    by auto
qed

section \<open>The symbol resolver\<close>

lemma findSymbol_match_found: "findSymbol_match file i symbol \<noteq> Inl SymbolNotFound"
  by (auto simp: findSymbol_match_def symbol_end_def symbol_offset_def deref_def Let_def
      split: sum.splits if_splits)

lemma findSymbol_from_none:
  "(\<forall>s \<in> set syms. Symbol_Name s \<noteq> name) \<Longrightarrow> findSymbol_from file name i syms = Inl SymbolNotFound"
  by (induction syms arbitrary: i) auto

lemma findSymbol_from_first:
  "k < length syms \<Longrightarrow> Symbol_Name (syms ! k) = name \<Longrightarrow>
   (\<forall>j < k. Symbol_Name (syms ! j) \<noteq> name) \<Longrightarrow>
   findSymbol_from file name i syms = findSymbol_match file (i + k) (syms ! k)"
proof (induction syms arbitrary: i k)
  case Nil
  then show ?case by simp
next
  case (Cons s syms)
  show ?case
  proof (cases k)
    case 0
    with Cons.prems show ?thesis by simp
  next
    case (Suc k')
    with Cons.prems have "Symbol_Name s \<noteq> name" by auto
    moreover have "findSymbol_from file name (i + 1) syms
        = findSymbol_match file (i + 1 + k') (syms ! k')"
      using Cons.prems Suc by (intro Cons.IH) auto
    ultimately show ?thesis using Suc by simp
  qed
qed

lemma first_index:
  assumes "\<exists>s \<in> set syms. P s"
  shows "\<exists>k < length syms. P (syms ! k) \<and> (\<forall>j < k. \<not> P (syms ! j))"
proof -
  from assms obtain n where n: "n < length syms" "P (syms ! n)"
    by (auto simp: in_set_conv_nth)
  define k where "k = (LEAST m. m < length syms \<and> P (syms ! m))"
  have k: "k < length syms \<and> P (syms ! k)"
    unfolding k_def using n by (intro LeastI [of "\<lambda>m. m < length syms \<and> P (syms ! m)" n]) simp
  have "\<not> P (syms ! j)" if "j < k" for j
    using not_less_Least [of j "\<lambda>m. m < length syms \<and> P (syms ! m)"] that k
    unfolding k_def by auto
  with k show ?thesis by blast
qed

text \<open>
  C9. \<open>findSymbol\<close> fails with "symbol not found" exactly when no symbol of the list has
  the requested name, and then returns no offset and no size. Otherwise it resolves the
  first symbol of that name in the order of the list: its result is that of the matched
  branch at the least index whose symbol has the name.
\<close>

theorem findSymbol_first_match:
  "(findSymbol file name = Inl SymbolNotFound
      \<longleftrightarrow> (\<forall>s \<in> set (File_Symbols file). Symbol_Name s \<noteq> name))
   \<and> (\<forall>k < length (File_Symbols file).
         Symbol_Name (File_Symbols file ! k) = name
         \<and> (\<forall>j < k. Symbol_Name (File_Symbols file ! j) \<noteq> name)
         \<longrightarrow> findSymbol file name = findSymbol_match file k (File_Symbols file ! k))"
proof -
  let ?syms = "File_Symbols file"
  have first: "findSymbol file name = findSymbol_match file k (?syms ! k)"
    if "k < length ?syms" "Symbol_Name (?syms ! k) = name"
       "\<forall>j < k. Symbol_Name (?syms ! j) \<noteq> name" for k
    using findSymbol_from_first [OF that, of "file" 0] by (simp add: findSymbol_def)
  have none: "findSymbol file name = Inl SymbolNotFound"
    if "\<forall>s \<in> set ?syms. Symbol_Name s \<noteq> name"
    using that by (simp add: findSymbol_def findSymbol_from_none)
  have some: "findSymbol file name \<noteq> Inl SymbolNotFound"
    if "\<exists>s \<in> set ?syms. Symbol_Name s = name"
  proof -
    from first_index [OF that] obtain k where "k < length ?syms"
      "Symbol_Name (?syms ! k) = name" "\<forall>j < k. Symbol_Name (?syms ! j) \<noteq> name" by blast
    from first [OF this] show ?thesis by (simp add: findSymbol_match_found)
  qed
  from first none some show ?thesis by blast
qed

theorem findSymbol_first_match_witness:
  "findSymbol example_file ''a'' = Inr (20, 4)
   \<and> findSymbol example_file ''z'' = Inl SymbolNotFound"
proof -
  have "findSymbol example_file ''a''
      = findSymbol_match example_file 0 (File_Symbols example_file ! 0)"
    using findSymbol_first_match [THEN conjunct2, rule_format, of 0 example_file "''a''"]
    by (simp add: example_file_def)
  moreover have "findSymbol example_file ''z'' = Inl SymbolNotFound"
    using findSymbol_first_match [THEN conjunct1, of example_file "''z''"]
    by (simp add: example_file_def)
  ultimately show ?thesis
    by (simp add: example_file_def findSymbol_match_def symbol_offset_def deref_def)
qed

lemma next_symbol_find:
  "n \<le> length syms \<Longrightarrow>
   (if next_symbol syms symbol n < length syms
    then Some (Symbol_Addr (syms ! next_symbol syms symbol n)) else None)
   = (case find (\<lambda>s2. Symbol_Section s2 \<noteq> Symbol_Section symbol
                       \<or> Symbol_Addr s2 > Symbol_Addr symbol) (drop n syms) of
        Some s2 \<Rightarrow> if Symbol_Section s2 = Symbol_Section symbol
                   then Some (Symbol_Addr s2) else None
      | None \<Rightarrow> None)"
proof (induction syms symbol n rule: next_symbol.induct)
  case (1 syms symbol n)
  show ?case
  proof (cases "n < length syms")
    case False
    then show ?thesis by (simp add: next_symbol.simps [of syms symbol n])
  next
    case True
    then have d: "drop n syms = syms ! n # drop (Suc n) syms"
      by (simp add: Cons_nth_drop_Suc)
    show ?thesis
    proof (cases "Symbol_Section (syms ! n) \<noteq> Symbol_Section symbol")
      case True
      with \<open>n < length syms\<close> show ?thesis
        by (simp add: next_symbol.simps [of syms symbol n] d)
    next
      case same: False
      show ?thesis
      proof (cases "Symbol_Addr (syms ! n) > Symbol_Addr symbol")
        case True
        with same \<open>n < length syms\<close> show ?thesis
          by (simp add: next_symbol.simps [of syms symbol n] d)
      next
        case False
        have step: "next_symbol syms symbol n = next_symbol syms symbol (Suc n)"
          using same False \<open>n < length syms\<close>
          by (simp add: next_symbol.simps [of syms symbol n])
        have "Suc n \<le> length syms" using \<open>n < length syms\<close> by simp
        then have "Suc n \<le> length syms \<and> n + 1 \<le> length syms" by simp
        with "1.IH" [OF \<open>n < length syms\<close> same False] show ?thesis
          unfolding step Suc_eq_plus1 using same False by (simp add: d)
      qed
    qed
  qed
qed

lemma next_symbol_self:
  "i < length syms \<Longrightarrow> next_symbol syms (syms ! i) i = next_symbol syms (syms ! i) (Suc i)"
  by (simp add: next_symbol.simps [of syms "syms ! i" i])

lemma symbol_end_inferred:
  assumes "i < length (File_Symbols file)"
  shows "symbol_end file (File_Symbols file ! i)
           (next_symbol (File_Symbols file) (File_Symbols file ! i) i)
         = inferred_end file (File_Symbols file ! i) i"
proof -
  let ?syms = "File_Symbols file" and ?s = "File_Symbols file ! i"
  have "Suc i \<le> length ?syms" using assms by simp
  from next_symbol_find [OF this, of ?s] show ?thesis
    unfolding next_symbol_self [OF assms, symmetric]
    by (auto simp: symbol_end_def inferred_end_def later_bound_def
        split: option.splits if_splits sum.splits)
qed

lemma end_check_no_overflow:
  fixes a e :: u64
  assumes "unat a + 4096 < 2 ^ 64"
  shows "(e \<le> a \<or> e > a + 4096) \<longleftrightarrow> (e \<le> a \<or> e - a > 4096)"
proof (cases "e \<le> a")
  case True
  then show ?thesis by simp
next
  case False
  then have lt: "unat a < unat e" by (simp add: word_le_nat_alt)
  have s: "unat (a + 4096) = unat a + 4096"
    using assms by (simp add: unat_word_ariths)
  have d: "unat (e - a) = unat e - unat a"
    using lt by (simp add: unat_sub word_le_nat_alt)
  have "a + 4096 < e \<longleftrightarrow> 4096 < e - a"
    using lt by (simp add: word_less_nat_alt s d) linarith
  with False show ?thesis by simp
qed

text \<open>
  Size inference for a symbol whose address is at least 4096 below the top of the
  address space: the end address is the one the scan of the specification infers, the
  result is an error exactly when \<open>end \<le> address\<close> or \<open>end - address > 4096\<close>, and
  otherwise the size is \<open>end - address\<close>.
\<close>

lemma findSymbol_infers_size:
  assumes "k < length (File_Symbols file)"
    and "Symbol_Name (File_Symbols file ! k) = name"
    and "\<forall>j < k. Symbol_Name (File_Symbols file ! j) \<noteq> name"
    and "Symbol_Size (File_Symbols file ! k) = 0"
    and "unat (Symbol_Addr (File_Symbols file ! k)) + 4096 < 2 ^ 64"
  shows "findSymbol file name =
     (case inferred_end file (File_Symbols file ! k) k of
        Inl e \<Rightarrow> Inl e
      | Inr end_addr \<Rightarrow>
          if end_addr \<le> Symbol_Addr (File_Symbols file ! k)
             \<or> end_addr - Symbol_Addr (File_Symbols file ! k) > 4096
          then Inl (InvalidEndAddress (Symbol_Addr (File_Symbols file ! k)) end_addr)
          else symbol_offset file (File_Symbols file ! k)
                 (end_addr - Symbol_Addr (File_Symbols file ! k)))"
proof -
  have "findSymbol file name = findSymbol_match file k (File_Symbols file ! k)"
    using findSymbol_from_first [OF assms(1-3), of "file" 0] by (simp add: findSymbol_def)
  then show ?thesis
    using assms(4) end_check_no_overflow [OF assms(5)]
    by (simp add: findSymbol_match_def symbol_end_inferred [OF assms(1)] split: sum.splits)
qed

text \<open>
  In \<open>example_file\<close>, symbol \<open>b\<close> is followed in its section by a symbol 8 bytes later,
  and symbol \<open>c\<close> is the last of its section, whose size is 32.
\<close>

lemma findSymbol_infers_size_examples:
  "findSymbol example_file ''b'' = Inr (24, 8) \<and> findSymbol example_file ''c'' = Inr (40, 8)"
proof -
  have b: "unat (Symbol_Addr (File_Symbols example_file ! 1)) + 4096 < 2 ^ 64"
    and c: "unat (Symbol_Addr (File_Symbols example_file ! 3)) + 4096 < 2 ^ 64"
    by (simp_all add: example_file_def)
  have "findSymbol example_file ''b'' = Inr (24, 8)"
    by (subst findSymbol_infers_size [of 1, OF _ _ _ _ b])
      (simp_all add: example_file_def inferred_end_def later_bound_def symbol_offset_def
        deref_def less_Suc_eq_0_disj)
  moreover have "\<forall>j < 3. Symbol_Name (File_Symbols example_file ! j) \<noteq> ''c''"
    by (auto simp: example_file_def numeral_3_eq_3 less_Suc_eq)
  then have "findSymbol example_file ''c'' = Inr (40, 8)"
    by (subst findSymbol_infers_size [of 3, OF _ _ _ _ c])
      (simp_all add: example_file_def inferred_end_def later_bound_def symbol_offset_def
        deref_def)
  ultimately show ?thesis by simp
qed

lemma next_symbol_top:
  "next_symbol (File_Symbols top_file) (File_Symbols top_file ! 0) 0 = 1"
  by (simp add: next_symbol.simps [of _ _ 0] next_symbol.simps [of _ _ "Suc 0"] top_file_def)

text \<open>
  C1. The source tests \<^verbatim>\<open>end > symbol.Addr+4096\<close> in \<^verbatim>\<open>uint64\<close>, where the sum wraps. For
  the symbol \<open>s\<close> of \<open>top_file\<close>, at address \<open>2^64 - 10\<close> with the next symbol of its
  section 5 bytes later, the sum is 4086, the test holds, and \<open>findSymbol\<close> returns the
  error; the inferred size is 5, which is neither \<open>\<le> 0\<close> nor above 4096.
\<close>

theorem findSymbol_top_of_address_space:
  "findSymbol top_file ''s''
     = Inl (InvalidEndAddress 0xFFFFFFFFFFFFFFF6 0xFFFFFFFFFFFFFFFB)
   \<and> (0xFFFFFFFFFFFFFFFB :: u64) - 0xFFFFFFFFFFFFFFF6 = 5"
proof -
  have "findSymbol top_file ''s'' = findSymbol_match top_file 0 (File_Symbols top_file ! 0)"
    by (simp add: findSymbol_def top_file_def)
  also have "\<dots> = Inl (InvalidEndAddress 0xFFFFFFFFFFFFFFF6 0xFFFFFFFFFFFFFFFB)"
    unfolding findSymbol_match_def next_symbol_top
    by (simp add: top_file_def symbol_end_def)
  finally show ?thesis by simp
qed

text \<open>
  C2 as stated fails: \<open>findSymbol\<close> never compares the resolved range with the section.
  In \<open>wide_file\<close> the symbol resolves to offset 20 and size 100, while its section is the
  file range \<open>[16, 26)\<close>.
\<close>

theorem findSymbol_range_counterexample:
  "\<not> (\<forall>file name off sz sym sec.
        findSymbol file name = Inr (off, sz)
        \<and> find (\<lambda>s. Symbol_Name s = name) (File_Symbols file) = Some sym
        \<and> deref file (Symbol_Section sym) = Inr sec
        \<longrightarrow> off = Section_Offset sec + Symbol_Addr sym \<and> range_in_section off sz sec)"
proof
  assume a: "\<forall>file name off sz sym sec.
        findSymbol file name = Inr (off, sz)
        \<and> find (\<lambda>s. Symbol_Name s = name) (File_Symbols file) = Some sym
        \<and> deref file (Symbol_Section sym) = Inr sec
        \<longrightarrow> off = Section_Offset sec + Symbol_Addr sym \<and> range_in_section off sz sec"
  have 1: "findSymbol wide_file ''s'' = Inr (20, 100)"
    by (simp add: findSymbol_def wide_file_def findSymbol_match_def symbol_offset_def deref_def)
  have 2: "find (\<lambda>s. Symbol_Name s = ''s'') (File_Symbols wide_file)
             = Some (File_Symbols wide_file ! 0)"
    by (simp add: wide_file_def)
  have 3: "deref wide_file (Symbol_Section (File_Symbols wide_file ! 0))
             = Inr (File_Sections wide_file ! 0)"
    by (simp add: wide_file_def deref_def)
  from a 1 2 3 have "range_in_section 20 100 (File_Sections wide_file ! 0)" by blast
  then show False by (simp add: range_in_section_def wide_file_def)
qed

text \<open>
  C2, amended. For every successful resolution the offset is the section's file offset
  plus the address of the first symbol of that name, in 64-bit arithmetic. For a
  section whose file range does not wrap, the resolved range \<open>[offset, offset + size)\<close>
  lies within the section's file range exactly when \<open>address + size\<close> is at most the
  section's size.
\<close>

theorem findSymbol_offset:
  assumes "findSymbol file name = Inr (off, sz)"
  shows "\<exists>sym sec.
           find (\<lambda>s. Symbol_Name s = name) (File_Symbols file) = Some sym
           \<and> deref file (Symbol_Section sym) = Inr sec
           \<and> off = Section_Offset sec + Symbol_Addr sym
           \<and> (unat (Section_Offset sec) + unat (Section_Size sec) < 2 ^ 64 \<longrightarrow>
                (range_in_section off sz sec
                   \<longleftrightarrow> unat (Symbol_Addr sym) + unat sz \<le> unat (Section_Size sec)))"
proof -
  let ?syms = "File_Symbols file"
  have "\<exists>s \<in> set ?syms. Symbol_Name s = name"
    using assms findSymbol_from_none [of ?syms name "file" 0]
    by (auto simp: findSymbol_def)
  from first_index [OF this] obtain k where k: "k < length ?syms"
    "Symbol_Name (?syms ! k) = name" "\<forall>j < k. Symbol_Name (?syms ! j) \<noteq> name" by blast
  define sym where "sym = ?syms ! k"
  have fnd: "find (\<lambda>s. Symbol_Name s = name) ?syms = Some sym"
    using k by (auto simp: find_Some_iff sym_def)
  have "findSymbol_match file k sym = Inr (off, sz)"
    using findSymbol_from_first [OF k, of "file" 0] assms by (simp add: findSymbol_def sym_def)
  then obtain sz' where so: "symbol_offset file sym sz' = Inr (off, sz)"
    by (auto simp: findSymbol_match_def Let_def split: if_splits sum.splits)
  obtain sec where sec: "deref file (Symbol_Section sym) = Inr sec"
    using so by (cases "deref file (Symbol_Section sym)") (auto simp: symbol_offset_def)
  have off: "off = Section_Offset sec + Symbol_Addr sym"
    using so sec by (auto simp: symbol_offset_def)
  have "range_in_section off sz sec \<longleftrightarrow> unat (Symbol_Addr sym) + unat sz \<le> unat (Section_Size sec)"
    if nw: "unat (Section_Offset sec) + unat (Section_Size sec) < 2 ^ 64"
  proof
    assume le: "unat (Symbol_Addr sym) + unat sz \<le> unat (Section_Size sec)"
    with nw have "unat (Section_Offset sec) + unat (Symbol_Addr sym) < 2 ^ 64" by linarith
    then have "unat off = unat (Section_Offset sec) + unat (Symbol_Addr sym)"
      by (simp add: off unat_word_ariths)
    with le show "range_in_section off sz sec" by (simp add: range_in_section_def)
  next
    assume r: "range_in_section off sz sec"
    have a: "unat (Symbol_Addr sym) < 2 ^ 64" using unsigned_less [of "Symbol_Addr sym", where ?'a = nat] by simp
    have "unat off = unat (Section_Offset sec) + unat (Symbol_Addr sym)"
    proof (rule ccontr)
      assume "unat off \<noteq> unat (Section_Offset sec) + unat (Symbol_Addr sym)"
      then have "unat off = unat (Section_Offset sec) + unat (Symbol_Addr sym) - 2 ^ 64
          \<and> 2 ^ 64 \<le> unat (Section_Offset sec) + unat (Symbol_Addr sym)"
        by (simp add: off unat_plus_if' split: if_splits)
      with r a show False unfolding range_in_section_def by linarith
    qed
    with r show "unat (Symbol_Addr sym) + unat sz \<le> unat (Section_Size sec)"
      by (simp add: range_in_section_def)
  qed
  with fnd sec off show ?thesis by blast
qed

theorem findSymbol_offset_witness:
  "findSymbol example_file ''a'' = Inr (20, 4)
   \<and> (\<exists>sym sec.
           find (\<lambda>s. Symbol_Name s = ''a'') (File_Symbols example_file) = Some sym
           \<and> deref example_file (Symbol_Section sym) = Inr sec
           \<and> (20 :: u64) = Section_Offset sec + Symbol_Addr sym
           \<and> range_in_section 20 4 sec)"
proof -
  have run: "findSymbol example_file ''a'' = Inr (20, 4)"
    by (simp add: findSymbol_def example_file_def findSymbol_match_def symbol_offset_def deref_def)
  from findSymbol_offset [OF run] obtain sym sec where
    f: "find (\<lambda>s. Symbol_Name s = ''a'') (File_Symbols example_file) = Some sym"
    and d: "deref example_file (Symbol_Section sym) = Inr sec"
    and o: "(20 :: u64) = Section_Offset sec + Symbol_Addr sym"
    and r: "unat (Section_Offset sec) + unat (Section_Size sec) < 2 ^ 64 \<longrightarrow>
                (range_in_section 20 4 sec
                   \<longleftrightarrow> unat (Symbol_Addr sym) + unat (4 :: u64) \<le> unat (Section_Size sec))"
    by blast
  from f have sym: "sym = File_Symbols example_file ! 0" by (simp add: example_file_def)
  with d have sec: "sec = File_Sections example_file ! 0"
    by (simp add: example_file_def deref_def)
  from r have "range_in_section 20 4 sec"
    by (simp add: sym sec example_file_def)
  with run f d o show ?thesis by blast
qed

section \<open>The streaming write\<close>

text \<open>
  C6. A patch that succeeds, at offset \<open>O\<close> with a replacement of \<open>L\<close> bytes on a source
  of \<open>N\<close> bytes with \<open>O + L \<le> N\<close>, appends exactly \<open>N\<close> bytes to the sink: the source's
  first \<open>O\<close> bytes, the replacement, and the source's bytes from \<open>O + L\<close> on; every byte
  outside \<open>[O, O + L)\<close> is the source's byte at the same position. The source is an
  argument that \<open>copyAndInject\<close> only reads through \<open>ReadAt\<close>; nothing returns a changed
  source. \<open>N < 2 ^ 63\<close> holds of every source Go can address with an \<^verbatim>\<open>int64\<close> offset.
\<close>

theorem copyAndInject_frame:
  assumes "copyAndInject r w offset buf = (w', None)"
    and "unat offset + length buf \<le> length r"
    and "length r < 2 ^ 63"
  shows "written w' = written w @ take (unat offset) r @ buf @ drop (unat offset + length buf) r
     \<and> length (written w') = length (written w) + length r
     \<and> (\<forall>i < length r. i < unat offset \<or> unat offset + length buf \<le> i \<longrightarrow>
            written w' ! (length (written w) + i) = r ! i)"
proof -
  let ?O = "unat offset" and ?L = "length buf"
  have out: "written w' = written w @ take ?O r @ buf @ drop (?O + ?L) r"
    using assms by (rule copyAndInject_output)
  have len: "length (written w') = length (written w) + length r"
    using assms(2) by (simp add: out)
  have frame: "written w' ! (length (written w) + i) = r ! i"
    if "i < length r" "i < ?O \<or> ?O + ?L \<le> i" for i
  proof -
    have lt: "length (take ?O r) = ?O" using assms(2) by simp
    from that(2) show ?thesis
    proof
      assume "i < ?O"
      then show ?thesis using lt by (simp add: out nth_append)
    next
      assume ge: "?O + ?L \<le> i"
      define j where "j = i - (?O + ?L)"
      have i: "i = ?O + ?L + j" using ge by (simp add: j_def)
      have "(take ?O r @ buf @ drop (?O + ?L) r) ! (?O + ?L + j) = drop (?O + ?L) r ! j"
        using lt by (rule nth_append3)
      also have "\<dots> = r ! i" using that(1) by (simp add: i)
      finally show ?thesis by (simp add: out nth_append i)
    qed
  qed
  from out len frame show ?thesis by blast
qed

theorem copyAndInject_frame_witness:
  "copyAndInject [1, 2, 3, 4, 5] sink 1 [9, 9] = (sink\<lparr>written := [1, 9, 9, 4, 5]\<rparr>, None)
   \<and> length (written (sink\<lparr>written := [1, 9, 9, 4, 5]\<rparr>)) = length (written sink) + length [1, 2, 3, 4, 5 :: byte]"
proof -
  have run: "copyAndInject [1, 2, 3, 4, 5] sink 1 [9, 9] = (sink\<lparr>written := [1, 9, 9, 4, 5]\<rparr>, None)"
    by (subst copyAndInject_writes) (simp_all add: Write_def sink_def suffix_bytes_def)
  have fits: "unat (1 :: u64) + length [9, 9 :: byte] \<le> length [1, 2, 3, 4, 5 :: byte]" by simp
  have small: "length [1, 2, 3, 4, 5 :: byte] < 2 ^ 63" by simp
  from copyAndInject_frame [OF run fits small] run show ?thesis by blast
qed

lemma findSymbol_short: "findSymbol short_file ''s'' = Inr (5, 3)"
  by (simp add: findSymbol_def short_file_def findSymbol_match_def symbol_offset_def deref_def)

text \<open>
  C7. \<^verbatim>\<open>io.Copy\<close> does not report the end of its source, so the test \<^verbatim>\<open>err == io.EOF\<close> at
  the end of \<^verbatim>\<open>copyAndInject\<close> never sees a source that is too short. On a source of 2
  bytes, a patch of 3 bytes at offset 5 succeeds and emits 5 bytes: the 2 bytes of the
  source and the replacement. The same happens through \<open>InjectStringSymbol\<close> on
  \<open>short_file\<close>.
\<close>

theorem copyAndInject_short_source:
  "copyAndInject [1, 2] sink 5 [9, 9, 9] = (sink\<lparr>written := [1, 2, 9, 9, 9]\<rparr>, None)
   \<and> InjectStringSymbol short_file sink ''s'' [97, 98] []
       = (sink\<lparr>written := [1, 2, 97, 98, 0]\<rparr>, None)"
proof -
  have direct: "copyAndInject [1, 2] sink 5 [9, 9, 9]
      = (sink\<lparr>written := [1, 2, 9, 9, 9]\<rparr>, None)"
    by (subst copyAndInject_unbounded) (simp_all add: sink_def suffix_bytes_def)
  have inner: "copyAndInject [1, 2] sink 5 [97, 98, 0]
      = (sink\<lparr>written := [1, 2, 97, 98, 0]\<rparr>, None)"
    by (subst copyAndInject_unbounded) (simp_all add: sink_def suffix_bytes_def)
  have "InjectStringSymbol short_file sink ''s'' [97, 98] []
       = (sink\<lparr>written := [1, 2, 97, 98, 0]\<rparr>, None)"
    unfolding InjectStringSymbol_def findSymbol_short
    by (simp add: go_copy_def make_bytes_def short_file_def inner)
  with direct show ?thesis by simp
qed

section \<open>String injection\<close>

lemma go_copy_make: "go_copy (make_bytes n) s = zero_padded n s"
  by (simp add: go_copy_def make_bytes_def zero_padded_def min_def)

lemma zero_padded_fits: "length s \<le> n \<Longrightarrow> zero_padded n s = s @ replicate (n - length s) 0"
  by (simp add: zero_padded_def)

lemma zero_padded_long: "n \<le> length s \<Longrightarrow> zero_padded n s = take n s"
  by (simp add: zero_padded_def)


lemma capacity_check:
  fixes sz :: u64
  assumes "length val < 2 ^ 63"
  shows "(of_nat (length val) + 1 > sz) \<longleftrightarrow> (length val + 1 > unat sz)"
proof -
  have "length val + 1 < 18446744073709551616" using assms by simp
  then have "unat (of_nat (length val) + 1 :: u64) = length val + 1"
    by (simp add: unat_word_ariths unat_of_nat)
  then show ?thesis by (simp add: word_less_nat_alt)
qed

lemma sint_nonneg_unat:
  fixes x :: u64
  assumes "0 \<le> sint x"
  shows "unat x < 9223372036854775808"
proof (rule ccontr)
  assume "\<not> unat x < 9223372036854775808"
  then have "9223372036854775808 \<le> int (unat x)" by linarith
  then have "2 ^ 63 \<le> uint x" by simp
  then have "signed_take_bit 63 (uint x) \<le> uint x - 2 ^ Suc 63"
    by (rule signed_take_bit_int_less_eq)
  moreover have "uint x < 18446744073709551616"
    using uint_lt2p [of x] by simp
  moreover have "sint x = signed_take_bit 63 (uint x)" by (simp add: sint_uint)
  ultimately show False using assms by simp
qed

lemma ReadAt_ok:
  fixes off :: u64
  assumes "ReadAt r k off = (bs, None)"
  shows "bs = take k (drop (unat off) r) \<and> length bs = k \<and> unat off + k \<le> length r
         \<and> unat off < 9223372036854775808"
proof -
  from ReadAt_None [OF assms] have nn: "0 \<le> sint off" and len: "length bs = k"
    and bs: "bs = take k (drop (nat (sint off)) r)"
    and le: "nat (sint off) + k \<le> length r" by blast+
  from nn have u: "unat off < 9223372036854775808" by (rule sint_nonneg_unat)
  then have "sint off = int (unat off)" by (rule sint_unat)
  with len bs le u show ?thesis by simp
qed

lemma check_existing_ok:
  assumes "ReadAt r (unat sz) offset = (existing, None)"
  shows "check_existing r offset sz from =
     (if existing \<noteq> zero_padded (unat sz) from
      then Some (ContentsMismatch existing (zero_padded (unat sz) from)) else None)"
proof -
  from ReadAt_ok [OF assms] have "length existing = unat sz" by blast
  then have "go_copy (make_bytes (unat sz)) existing = existing"
    by (simp add: go_copy_make zero_padded_def)
  then show ?thesis
    using assms by (simp add: check_existing_def go_copy_make)
qed

lemma InjectStringSymbol_fits:
  assumes "findSymbol file symbol = Inr (offset, sz)"
    and "length val < 2 ^ 63" and "length val + 1 \<le> unat sz"
  shows "InjectStringSymbol file w symbol val from =
     (case (if from \<noteq> [] then check_existing (File_r file) offset sz from else None) of
        Some err \<Rightarrow> (w, Some err)
      | None \<Rightarrow>
          (let (w', err) = copyAndInject (File_r file) w offset
                             (val @ replicate (unat sz - length val) 0)
           in (w', map_option IOError err)))"
proof -
  have "\<not> of_nat (length val) + 1 > sz"
    using capacity_check [OF assms(2), of sz] assms(3) by simp
  moreover have "go_copy (make_bytes (unat sz)) val = val @ replicate (unat sz - length val) 0"
    using assms(3) by (simp add: go_copy_make zero_padded_fits)
  ultimately show ?thesis
    using assms(1) by (simp add: InjectStringSymbol_def Let_def split: option.splits)
qed

lemma findSymbol_example_a: "findSymbol example_file ''a'' = Inr (20, 4)"
  by (simp add: findSymbol_def example_file_def findSymbol_match_def symbol_offset_def deref_def)

lemma File_r_example:
  "File_r example_file = replicate 20 0 @ [111, 108, 100, 0] @ replicate 40 0"
  by (simp add: example_file_def)

lemma ReadAt_example:
  "ReadAt (File_r example_file) (unat (4 :: u64)) (20 :: u64) = ([111, 108, 100, 0], None)"
  by (simp add: File_r_example ReadAt_def)

lemma copyAndInject_example:
  "copyAndInject (File_r example_file) sink 20 [110, 101, 119, 0]
     = (sink\<lparr>written := replicate 20 0 @ [110, 101, 119, 0] @ replicate 40 0\<rparr>, None)"
  by (subst copyAndInject_unbounded)
    (simp_all add: sink_def File_r_example suffix_bytes_def)

text \<open>
  C3. Let the symbol resolve to \<open>offset\<close> and \<open>size\<close>. If \<open>len(value) + 1 > size\<close> the
  injection fails with the overflow error, and nothing is written. Otherwise, for a
  \<open>size\<close> that \<^verbatim>\<open>make\<close> allocates (\<open>size \<le> maxAlloc\<close>), the replacement buffer has exactly
  \<open>size\<close> bytes, its first \<open>len(value)\<close> bytes are the bytes of \<open>value\<close> and the others
  are zero; the injection is the streaming write of this buffer at \<open>offset\<close>, unless
  the check of the prior value stops it; and when the injection succeeds on a source
  that reaches \<open>offset + size\<close>, the \<open>size\<close> bytes of the output at \<open>offset\<close> are this
  buffer. A Go string has fewer than \<open>2 ^ 63\<close> bytes.
\<close>

theorem InjectStringSymbol_capacity:
  assumes "findSymbol file symbol = Inr (offset, sz)" and "length val < 2 ^ 63"
  shows "(length val + 1 > unat sz \<longrightarrow>
            InjectStringSymbol file w symbol val from
              = (w, Some (ValueOverflows (length val) sz)))
     \<and> (length val + 1 \<le> unat sz \<and> unat sz \<le> maxAlloc \<longrightarrow>
          (let buf = go_copy (make_bytes (unat sz)) val in
             length buf = unat sz
             \<and> take (length val) buf = val
             \<and> drop (length val) buf = replicate (unat sz - length val) 0
             \<and> InjectStringSymbol file w symbol val from =
                 (case (if from \<noteq> [] then check_existing (File_r file) offset sz from
                        else None) of
                    Some err \<Rightarrow> (w, Some err)
                  | None \<Rightarrow>
                      (let (w', err) = copyAndInject (File_r file) w offset buf
                       in (w', map_option IOError err)))
             \<and> (\<forall>w'. InjectStringSymbol file w symbol val from = (w', None)
                      \<and> unat offset + unat sz \<le> length (File_r file)
                      \<and> length (File_r file) < 2 ^ 63
                    \<longrightarrow> take (unat sz) (drop (length (written w) + unat offset) (written w'))
                          = buf)))"
proof (intro conjI impI)
  assume "length val + 1 > unat sz"
  then have "of_nat (length val) + 1 > sz" using capacity_check [OF assms(2), of sz] by simp
  then show "InjectStringSymbol file w symbol val from
               = (w, Some (ValueOverflows (length val) sz))"
    using assms(1) by (simp add: InjectStringSymbol_def)
next
  assume "length val + 1 \<le> unat sz \<and> unat sz \<le> maxAlloc"
  then have fits: "length val + 1 \<le> unat sz" by simp
  define buf where "buf = go_copy (make_bytes (unat sz)) val"
  have buf: "buf = val @ replicate (unat sz - length val) 0"
    using fits by (simp add: buf_def go_copy_make zero_padded_fits)
  have len: "length buf = unat sz" using fits by (simp add: buf)
  note run = InjectStringSymbol_fits [OF assms fits, of w "from", folded buf]
  have placed: "take (unat sz) (drop (length (written w) + unat offset) (written w')) = buf"
    if ok: "InjectStringSymbol file w symbol val from = (w', None)"
      and inside: "unat offset + unat sz \<le> length (File_r file)"
      and small: "length (File_r file) < 2 ^ 63" for w'
  proof -
    from ok have "copyAndInject (File_r file) w offset buf = (w', None)"
      unfolding run by (auto split: option.splits prod.splits if_splits)
    from copyAndInject_output [OF this] inside small len
    have "written w' = written w @ take (unat offset) (File_r file) @ buf
            @ drop (unat offset + length buf) (File_r file)" by simp
    moreover have "length (take (unat offset) (File_r file)) = unat offset"
      using inside by simp
    ultimately show ?thesis using len by simp
  qed
  show "let buf = go_copy (make_bytes (unat sz)) val in
             length buf = unat sz
             \<and> take (length val) buf = val
             \<and> drop (length val) buf = replicate (unat sz - length val) 0
             \<and> InjectStringSymbol file w symbol val from =
                 (case (if from \<noteq> [] then check_existing (File_r file) offset sz from
                        else None) of
                    Some err \<Rightarrow> (w, Some err)
                  | None \<Rightarrow>
                      (let (w', err) = copyAndInject (File_r file) w offset buf
                       in (w', map_option IOError err)))
             \<and> (\<forall>w'. InjectStringSymbol file w symbol val from = (w', None)
                      \<and> unat offset + unat sz \<le> length (File_r file)
                      \<and> length (File_r file) < 2 ^ 63
                    \<longrightarrow> take (unat sz) (drop (length (written w) + unat offset) (written w'))
                          = buf)"
    unfolding Let_def buf_def [symmetric]
  proof (intro conjI allI impI)
    show "length buf = unat sz" by (rule len)
    show "take (length val) buf = val" by (simp add: buf)
    show "drop (length val) buf = replicate (unat sz - length val) 0" by (simp add: buf)
    show "InjectStringSymbol file w symbol val from =
            (case if from \<noteq> [] then check_existing (File_r file) offset sz from else None of
               None \<Rightarrow> (case copyAndInject (File_r file) w offset buf of
                         (w', err) \<Rightarrow> (w', map_option IOError err))
             | Some err \<Rightarrow> (w, Some err))"
      using run unfolding Let_def .
  next
    fix w'
    assume "InjectStringSymbol file w symbol val from = (w', None)
              \<and> unat offset + unat sz \<le> length (File_r file)
              \<and> length (File_r file) < 2 ^ 63"
    then show "take (unat sz) (drop (length (written w) + unat offset) (written w')) = buf"
      using placed by blast
  qed
qed

theorem InjectStringSymbol_capacity_witness:
  "InjectStringSymbol example_file sink ''a'' [110, 101, 119, 33] []
     = (sink, Some (ValueOverflows 4 4))
   \<and> InjectStringSymbol example_file sink ''a'' [110, 101, 119] []
     = (sink\<lparr>written := replicate 20 0 @ [110, 101, 119, 0] @ replicate 40 0\<rparr>, None)
   \<and> go_copy (make_bytes 4) [110, 101, 119] = [110, 101, 119, 0 :: byte]"
proof -
  have long: "length [110, 101, 119, 33 :: byte] < 2 ^ 63"
    and short: "length [110, 101, 119 :: byte] < 2 ^ 63" by simp_all
  have over: "InjectStringSymbol example_file sink ''a'' [110, 101, 119, 33] []
     = (sink, Some (ValueOverflows 4 4))"
    using InjectStringSymbol_capacity [OF findSymbol_example_a long, of sink "[]"] by simp
  have buf: "go_copy (make_bytes 4) [110, 101, 119] = [110, 101, 119, 0 :: byte]"
    by (simp add: go_copy_def make_bytes_def)
  have "InjectStringSymbol example_file sink ''a'' [110, 101, 119] []
     = (sink\<lparr>written := replicate 20 0 @ [110, 101, 119, 0] @ replicate 40 0\<rparr>, None)"
    using InjectStringSymbol_capacity [OF findSymbol_example_a short, of sink "[]"]
    by (simp add: Let_def buf copyAndInject_example maxAlloc_def)
  with over buf show ?thesis by simp
qed




text \<open>
  C10. An expected prior value longer than the symbol raises no capacity error. The
  check compares the existing bytes with the first \<open>size\<close> bytes of the expected value
  only: when they agree, the injection goes on to the streaming write, as it does in
  \<open>example_file\<close> for an expected value of 7 bytes and the symbol \<open>a\<close> of 4.
\<close>

theorem InjectStringSymbol_long_prior_value:
  assumes "findSymbol file symbol = Inr (offset, sz)"
    and "length val < 2 ^ 63" and "length val + 1 \<le> unat sz"
    and "length from > unat sz"
    and "ReadAt (File_r file) (unat sz) offset = (existing, None)"
  shows "InjectStringSymbol file w symbol val from =
     (if existing = take (unat sz) from
      then (let (w', err) = copyAndInject (File_r file) w offset
                              (go_copy (make_bytes (unat sz)) val)
            in (w', map_option IOError err))
      else (w, Some (ContentsMismatch existing (take (unat sz) from))))"
proof -
  from assms(4) have ne: "from \<noteq> []" by auto
  have zp: "zero_padded (unat sz) from = take (unat sz) from"
    using assms(4) by (simp add: zero_padded_long)
  have buf: "go_copy (make_bytes (unat sz)) val = val @ replicate (unat sz - length val) 0"
    using assms(3) by (simp add: go_copy_make zero_padded_fits)
  show ?thesis
    unfolding InjectStringSymbol_fits [OF assms(1-3)] buf
    using ne by (simp add: check_existing_ok [OF assms(5)] zp)
qed

theorem InjectStringSymbol_long_prior_value_witness:
  "InjectStringSymbol example_file sink ''a'' [110, 101, 119] [111, 108, 100, 0, 88, 89, 90]
     = (sink\<lparr>written := replicate 20 0 @ [110, 101, 119, 0] @ replicate 40 0\<rparr>, None)"
proof -
  have short: "length [110, 101, 119 :: byte] < 2 ^ 63"
    and fits: "length [110, 101, 119 :: byte] + 1 \<le> unat (4 :: u64)"
    and longer: "length [111, 108, 100, 0, 88, 89, 90 :: byte] > unat (4 :: u64)" by simp_all
  have buf: "go_copy (make_bytes 4) [110, 101, 119] = [110, 101, 119, 0 :: byte]"
    by (simp add: go_copy_def make_bytes_def)
  from InjectStringSymbol_long_prior_value
    [OF findSymbol_example_a short fits longer ReadAt_example, of sink]
  show ?thesis by (simp add: buf copyAndInject_example)
qed

section \<open>Integer injection\<close>

lemma length_PutUint64: "length (PutUint64 v) = 8"
  by (simp add: PutUint64_def)

lemma unat_byte_of:
  fixes v :: u64
  shows "unat (ucast (drop_bit n v) :: byte) = (unat v div 2 ^ n) mod 256"
proof -
  have "unat (ucast (drop_bit n v) :: byte) = take_bit 8 (drop_bit n (unat v))"
    by (simp only: unsigned_ucast_eq unat_drop_bit_eq) simp
  also have "\<dots> = (unat v div 2 ^ n) mod 256"
    by (simp add: take_bit_eq_mod drop_bit_eq_div)
  finally show ?thesis .
qed

lemma PutUint64_bytes:
  "i < 8 \<Longrightarrow> unat (PutUint64 v ! i) = (unat v div 256 ^ i) mod 256"
proof -
  assume "i < 8"
  then consider "i = 0" | "i = 1" | "i = 2" | "i = 3" | "i = 4" | "i = 5" | "i = 6" | "i = 7"
    by linarith
  then show ?thesis
  proof cases
    case 1 then show ?thesis using unat_byte_of [of 0 v] by (simp add: PutUint64_def)
  next
    case 2 then show ?thesis using unat_byte_of [of 8 v] by (simp add: PutUint64_def)
  next
    case 3 then show ?thesis using unat_byte_of [of 16 v] by (simp add: PutUint64_def)
  next
    case 4 then show ?thesis using unat_byte_of [of 24 v] by (simp add: PutUint64_def)
  next
    case 5 then show ?thesis using unat_byte_of [of 32 v] by (simp add: PutUint64_def)
  next
    case 6 then show ?thesis using unat_byte_of [of 40 v] by (simp add: PutUint64_def)
  next
    case 7 then show ?thesis using unat_byte_of [of 48 v] by (simp add: PutUint64_def)
  next
    case 8 then show ?thesis using unat_byte_of [of 56 v] by (simp add: PutUint64_def)
  qed
qed

lemma Uint64_PutUint64: "Uint64 (PutUint64 v) = v"
proof (rule bit_word_eqI)
  fix n
  assume "n < LENGTH(64)"
  then have "n < 64" by simp
  then consider "n < 8" | "8 \<le> n" "n < 16" | "16 \<le> n" "n < 24" | "24 \<le> n" "n < 32"
    | "32 \<le> n" "n < 40" | "40 \<le> n" "n < 48" | "48 \<le> n" "n < 56" | "56 \<le> n" "n < 64"
    by linarith
  then show "bit (Uint64 (PutUint64 v)) n = bit v n"
    unfolding Uint64_def PutUint64_def
    by cases (auto simp: bit_simps cong: conj_cong)
qed

lemma findSymbol_example_b: "findSymbol example_file ''b'' = Inr (24, 8)"
  using findSymbol_infers_size_examples by simp

text \<open>
  C8. Let the symbol resolve to \<open>offset\<close> and \<open>size\<close>. The injection fails with the
  "not a uint64" error when \<open>size \<noteq> 8\<close>, and with no such error when \<open>size = 8\<close>: it
  is then the streaming write of the 8 bytes of \<open>PutUint64\<close>. Byte \<open>i\<close> of these is
  \<open>value div 256 ^ i mod 256\<close>, the little-endian encoding, which \<open>Uint64\<close> decodes to
  the value.
\<close>

theorem InjectUint64Symbol_size:
  assumes "findSymbol file symbol = Inr (offset, sz)"
  shows "(sz \<noteq> 8 \<longrightarrow>
            InjectUint64Symbol file w symbol val = (w, Some (NotUint64 symbol sz)))
     \<and> (sz = 8 \<longrightarrow>
            InjectUint64Symbol file w symbol val =
              (let (w', err) = copyAndInject (File_r file) w offset (PutUint64 val)
               in (w', map_option IOError err))
            \<and> (\<forall>s n. snd (InjectUint64Symbol file w symbol val) \<noteq> Some (NotUint64 s n)))
     \<and> length (PutUint64 val) = 8
     \<and> (\<forall>i < 8. unat (PutUint64 val ! i) = (unat val div 256 ^ i) mod 256)
     \<and> Uint64 (PutUint64 val) = val"
proof -
  have ne: "InjectUint64Symbol file w symbol val = (w, Some (NotUint64 symbol sz))"
    if "sz \<noteq> 8"
    using assms that by (simp add: InjectUint64Symbol_def)
  have eq: "InjectUint64Symbol file w symbol val =
              (let (w', err) = copyAndInject (File_r file) w offset (PutUint64 val)
               in (w', map_option IOError err))" if "sz = 8"
    using assms that by (simp add: InjectUint64Symbol_def)
  have other: "snd (InjectUint64Symbol file w symbol val) \<noteq> Some (NotUint64 s n)"
    if "sz = 8" for s n
    unfolding eq [OF that]
    by (cases "copyAndInject (File_r file) w offset (PutUint64 val)") auto
  have bytes: "\<forall>i < 8. unat (PutUint64 val ! i) = (unat val div 256 ^ i) mod 256"
    using PutUint64_bytes by blast
  from ne eq other bytes length_PutUint64 [of val] Uint64_PutUint64 [of val]
  show ?thesis by blast
qed

theorem InjectUint64Symbol_size_witness:
  "InjectUint64Symbol example_file sink ''a'' 0x0102030405060708
     = (sink, Some (NotUint64 ''a'' 4))
   \<and> InjectUint64Symbol example_file sink ''b'' 0x0102030405060708
     = (sink\<lparr>written := replicate 20 0 @ [111, 108, 100, 0] @ [8, 7, 6, 5, 4, 3, 2, 1]
                  @ replicate 32 0\<rparr>, None)"
proof -
  have four: "(4 :: u64) \<noteq> 8" by simp
  have bad: "InjectUint64Symbol example_file sink ''a'' 0x0102030405060708
     = (sink, Some (NotUint64 ''a'' 4))"
    using InjectUint64Symbol_size [OF findSymbol_example_a, of sink "0x0102030405060708"] four
    by blast
  have bytes: "PutUint64 0x0102030405060708 = [8, 7, 6, 5, 4, 3, 2, 1]"
    by (simp add: PutUint64_def drop_bit_eq_div)
  have copy: "copyAndInject (File_r example_file) sink 24 [8, 7, 6, 5, 4, 3, 2, 1]
     = (sink\<lparr>written := replicate 20 0 @ [111, 108, 100, 0] @ [8, 7, 6, 5, 4, 3, 2, 1]
                  @ replicate 32 0\<rparr>, None)"
    by (subst copyAndInject_unbounded)
      (simp_all add: sink_def File_r_example suffix_bytes_def)
  have "InjectUint64Symbol example_file sink ''b'' 0x0102030405060708
     = (sink\<lparr>written := replicate 20 0 @ [111, 108, 100, 0] @ [8, 7, 6, 5, 4, 3, 2, 1]
                  @ replicate 32 0\<rparr>, None)"
    using InjectUint64Symbol_size [OF findSymbol_example_b, of sink "0x0102030405060708"]
    by (simp add: bytes copy)
  with bad show ?thesis by simp
qed

section \<open>The format dispatcher\<close>

lemma wrong_format_iff: "is_cantParseError e \<longleftrightarrow> wrong_format e"
  by (cases e) (simp_all add: wrong_format_def)

text \<open>
  C5. \<open>OpenFile\<close> and \<open>DumpSymbols\<close> try ELF, then Mach-O, then PE. The first reader
  whose answer is not "wrong format" decides: its success is returned (for \<open>OpenFile\<close>
  with the byte source attached), its failure is returned as it is, and no further
  reader is tried. When all three answer "wrong format", the error of the ELF reader
  is returned.
\<close>

theorem dispatcher_fallback:
  "(\<forall>f. elfSymbolsFromFile rd r = Inr f \<longrightarrow>
        OpenFile rd r = (Inr (f\<lparr>File_r := r\<rparr>), [ELF]))
   \<and> (\<forall>e. elfSymbolsFromFile rd r = Inl e \<and> \<not> wrong_format e \<longrightarrow>
        OpenFile rd r = (Inl e, [ELF]))
   \<and> (\<forall>e f. elfSymbolsFromFile rd r = Inl e \<and> wrong_format e
          \<and> machoSymbolsFromFile rd r = Inr f \<longrightarrow>
        OpenFile rd r = (Inr (f\<lparr>File_r := r\<rparr>), [ELF, MachO]))
   \<and> (\<forall>e e2. elfSymbolsFromFile rd r = Inl e \<and> wrong_format e
          \<and> machoSymbolsFromFile rd r = Inl e2 \<and> \<not> wrong_format e2 \<longrightarrow>
        OpenFile rd r = (Inl e2, [ELF, MachO]))
   \<and> (\<forall>e e2 f. elfSymbolsFromFile rd r = Inl e \<and> wrong_format e
          \<and> machoSymbolsFromFile rd r = Inl e2 \<and> wrong_format e2
          \<and> peSymbolsFromFile rd r = Inr f \<longrightarrow>
        OpenFile rd r = (Inr (f\<lparr>File_r := r\<rparr>), [ELF, MachO, PE]))
   \<and> (\<forall>e e2 e3. elfSymbolsFromFile rd r = Inl e \<and> wrong_format e
          \<and> machoSymbolsFromFile rd r = Inl e2 \<and> wrong_format e2
          \<and> peSymbolsFromFile rd r = Inl e3 \<and> \<not> wrong_format e3 \<longrightarrow>
        OpenFile rd r = (Inl e3, [ELF, MachO, PE]))
   \<and> (\<forall>e e2 e3. elfSymbolsFromFile rd r = Inl e \<and> wrong_format e
          \<and> machoSymbolsFromFile rd r = Inl e2 \<and> wrong_format e2
          \<and> peSymbolsFromFile rd r = Inl e3 \<and> wrong_format e3 \<longrightarrow>
        OpenFile rd r = (Inl e, [ELF, MachO, PE]))
   \<and> (dumpElfSymbols d r = None \<longrightarrow> DumpSymbols d r = (None, [ELF]))
   \<and> (\<forall>e. dumpElfSymbols d r = Some e \<and> \<not> wrong_format e \<longrightarrow>
        DumpSymbols d r = (Some e, [ELF]))
   \<and> (\<forall>e. dumpElfSymbols d r = Some e \<and> wrong_format e
          \<and> dumpMachoSymbols d r = None \<longrightarrow>
        DumpSymbols d r = (None, [ELF, MachO]))
   \<and> (\<forall>e e2. dumpElfSymbols d r = Some e \<and> wrong_format e
          \<and> dumpMachoSymbols d r = Some e2 \<and> \<not> wrong_format e2 \<longrightarrow>
        DumpSymbols d r = (Some e2, [ELF, MachO]))
   \<and> (\<forall>e e2. dumpElfSymbols d r = Some e \<and> wrong_format e
          \<and> dumpMachoSymbols d r = Some e2 \<and> wrong_format e2
          \<and> dumpPESymbols d r = None \<longrightarrow>
        DumpSymbols d r = (None, [ELF, MachO, PE]))
   \<and> (\<forall>e e2 e3. dumpElfSymbols d r = Some e \<and> wrong_format e
          \<and> dumpMachoSymbols d r = Some e2 \<and> wrong_format e2
          \<and> dumpPESymbols d r = Some e3 \<and> \<not> wrong_format e3 \<longrightarrow>
        DumpSymbols d r = (Some e3, [ELF, MachO, PE]))
   \<and> (\<forall>e e2 e3. dumpElfSymbols d r = Some e \<and> wrong_format e
          \<and> dumpMachoSymbols d r = Some e2 \<and> wrong_format e2
          \<and> dumpPESymbols d r = Some e3 \<and> wrong_format e3 \<longrightarrow>
        DumpSymbols d r = (Some e, [ELF, MachO, PE]))"
  by (simp add: OpenFile_def DumpSymbols_def wrong_format_iff)

theorem dispatcher_fallback_witness:
  "OpenFile garbage_readers [1, 2, 3] = (Inl (cantParseError ''bad ELF magic''), [ELF, MachO, PE])
   \<and> DumpSymbols macho_dumpers [1, 2, 3]
       = (Some (otherError ''truncated load command''), [ELF, MachO])"
proof -
  have wf: "wrong_format (cantParseError m)" for m by (simp add: wrong_format_def)
  have nwf: "\<not> wrong_format (otherError m)" for m by (simp add: wrong_format_def)
  note t = dispatcher_fallback [of garbage_readers "[1, 2, 3]" macho_dumpers]
  have "OpenFile garbage_readers [1, 2, 3]
          = (Inl (cantParseError ''bad ELF magic''), [ELF, MachO, PE])"
    using t wf by (simp add: garbage_readers_def)
  moreover have "DumpSymbols macho_dumpers [1, 2, 3]
       = (Some (otherError ''truncated load command''), [ELF, MachO])"
    using t wf nwf by (simp add: macho_dumpers_def)
  ultimately show ?thesis by simp
qed

end
